theory Spec2Isabelle
  imports Complex_Main
begin

section \<open>UDP throttle and rudder servo control (udp\_servo\_control.c)\<close>

text \<open>
  The program has two threads. \<open>commsThread\<close> receives datagrams and writes the two
  globals \<open>throttle\<close> and \<open>rudder\<close> under a mutex; \<open>main\<close> reads them under the same
  mutex fifty times a second and turns them into two servo pulse lengths.

  A value of the C type \<open>double\<close> is a finite number, an infinity or a NaN. The finite
  ones are modelled as \<open>real\<close>: arithmetic on them is exact, rounding to binary64 is not
  modelled.
\<close>

subsection \<open>Configuration macros\<close>

definition UDP_PORT :: nat where
  "UDP_PORT = 2031"

definition THROTTLE_SERVO :: nat where
  "THROTTLE_SERVO = 0"

definition RUDDER_SERVO :: nat where
  "RUDDER_SERVO = 1"

definition THROTTLE_MIN_PULSE_LENGTH_USEC :: real where
  "THROTTLE_MIN_PULSE_LENGTH_USEC = 900"

definition THROTTLE_MAX_PULSE_LENGTH_USEC :: real where
  "THROTTLE_MAX_PULSE_LENGTH_USEC = 2100"

definition RUDDER_MIN_PULSE_LENGTH_USEC :: real where
  "RUDDER_MIN_PULSE_LENGTH_USEC = 900"

definition RUDDER_MAX_PULSE_LENGTH_USEC :: real where
  "RUDDER_MAX_PULSE_LENGTH_USEC = 2100"

definition SERVO_PULSE_RATE_HZ :: nat where
  "SERVO_PULSE_RATE_HZ = 50"

definition COMMS_TIMEOUT_SEC :: nat where
  "COMMS_TIMEOUT_SEC = 5"

definition THROTTLE_RANGE_USEC :: real where
  "THROTTLE_RANGE_USEC = THROTTLE_MAX_PULSE_LENGTH_USEC - THROTTLE_MIN_PULSE_LENGTH_USEC"

definition RUDDER_RANGE_USEC :: real where
  "RUDDER_RANGE_USEC = RUDDER_MAX_PULSE_LENGTH_USEC - RUDDER_MIN_PULSE_LENGTH_USEC"

definition RUDDER_CENTRE_PULSE_LENGTH_USEC :: real where
  "RUDDER_CENTRE_PULSE_LENGTH_USEC =
     (RUDDER_MAX_PULSE_LENGTH_USEC - RUDDER_MIN_PULSE_LENGTH_USEC) / 2
       + RUDDER_MIN_PULSE_LENGTH_USEC"

subsection \<open>The shared globals and what the program does to the outside\<close>

datatype double = Finite real | PosInf | NegInf | NaN

text \<open>The two globals \<open>double throttle, rudder\<close>; both start at zero (static storage).\<close>

record demand =
  throttle :: double
  rudder :: double

definition zero_demand :: demand where
  "zero_demand = \<lparr>throttle = Finite 0, rudder = Finite 0\<rparr>"

text \<open>
  Calls that leave the program, in the order they are made. \<open>SendPulse ch us\<close> is
  \<open>rc_servo_send_pulse_us(ch, us)\<close> with the value of the argument expression at the call;
  \<open>PowerRail b\<close> is \<open>rc_servo_power_rail_en(b)\<close>.
\<close>

datatype action =
    Stdout string
  | Stderr string
  | AdcCleanup
  | PowerRail bool
  | SendPulse nat real
  | Usleep nat
  | ThreadCreate
  | ThreadJoin
  | ServoCleanup

subsection \<open>One cycle of the servo loop in \<open>main\<close>\<close>

text \<open>
  The test \<open>x >= lo && x <= hi\<close> on a \<open>double\<close>: a comparison with a NaN is false, and
  an infinity is beyond one of the two bounds.
\<close>

definition in_range :: "real \<Rightarrow> real \<Rightarrow> double \<Rightarrow> bool" where
  "in_range lo hi x = (case x of Finite v \<Rightarrow> v \<ge> lo \<and> v \<le> hi | _ \<Rightarrow> False)"

text \<open>
  The body of \<open>while (running)\<close> in \<open>main\<close>, from the copies it took of the globals. The
  pulse lengths it computes are finite: the arithmetic is done on values in range only.
\<close>

definition throttle_usec :: "double \<Rightarrow> real" where
  "throttle_usec tmpThrottle =
     (case tmpThrottle of
        Finite v \<Rightarrow>
          if v \<ge> 0 \<and> v \<le> 100
          then (v / 100 * THROTTLE_RANGE_USEC) + THROTTLE_MIN_PULSE_LENGTH_USEC
          else THROTTLE_MIN_PULSE_LENGTH_USEC
      | _ \<Rightarrow> THROTTLE_MIN_PULSE_LENGTH_USEC)"

definition rudder_usec :: "double \<Rightarrow> real" where
  "rudder_usec tmpRudder =
     (case tmpRudder of
        Finite v \<Rightarrow>
          if v \<ge> - 100 \<and> v \<le> 100
          then (v / 200 * RUDDER_RANGE_USEC) + RUDDER_CENTRE_PULSE_LENGTH_USEC
          else RUDDER_CENTRE_PULSE_LENGTH_USEC
      | _ \<Rightarrow> RUDDER_CENTRE_PULSE_LENGTH_USEC)"

definition servo_cycle :: "demand \<Rightarrow> action list" where
  "servo_cycle d =
     (let tmpThrottle = throttle d;
          tmpRudder = rudder d
      in (if in_range 0 100 tmpThrottle then []
          else [Stdout ''Throttle demand out of range\<newline>'']) @
         (if in_range (- 100) 100 tmpRudder then []
          else [Stdout ''Rudder demand out of range\<newline>'']) @
         [SendPulse THROTTLE_SERVO (throttle_usec tmpThrottle),
          SendPulse RUDDER_SERVO (rudder_usec tmpRudder),
          Usleep (1000000 div SERVO_PULSE_RATE_HZ)])"

text \<open>The loop runs one cycle for each copy of the globals it takes before it sees
  \<open>running = 0\<close>.\<close>

fun servo_loop :: "demand list \<Rightarrow> action list" where
  "servo_loop [] = []"
| "servo_loop (d # ds) = servo_cycle d @ servo_loop ds"

text \<open>The pulse lengths sent to one servo channel, in order.\<close>

fun pulses :: "nat \<Rightarrow> action list \<Rightarrow> real list" where
  "pulses ch [] = []"
| "pulses ch (SendPulse c us # as) = (if c = ch then us # pulses ch as else pulses ch as)"
| "pulses ch (_ # as) = pulses ch as"

subsection \<open>C library functions used by \<open>commsThread\<close>\<close>

text \<open>
  \<open>strtok\<close>, \<open>strtod\<close> and \<open>recvfrom\<close> belong to the C library, not to this repository;
  they are written here after their descriptions in the C standard and in POSIX. A C
  string is the part of a character array before its first NUL.
\<close>

definition NUL :: char where
  "NUL = CHR 0x00"

definition c_str :: "string \<Rightarrow> string" where
  "c_str a = takeWhile (\<lambda>c. c \<noteq> NUL) a"

text \<open>
  \<open>strtok s delim\<close>, for \<open>s\<close> the C string at the start pointer (the argument on the
  first call, the saved pointer on a call with \<open>NULL\<close>): \<open>None\<close> is the \<open>NULL\<close> it returns
  when only delimiters are left; otherwise the token and the C string at the new saved
  pointer.
\<close>

definition strtok :: "string \<Rightarrow> string \<Rightarrow> (string \<times> string) option" where
  "strtok s delim =
     (let s1 = dropWhile (\<lambda>c. c \<in> set delim) s in
      if s1 = [] then None
      else Some (takeWhile (\<lambda>c. c \<notin> set delim) s1,
                 drop 1 (dropWhile (\<lambda>c. c \<notin> set delim) s1)))"

definition isspace :: "char \<Rightarrow> bool" where
  "isspace c = (c \<in> set [CHR '' '', CHR 0x09, CHR 0x0A, CHR 0x0B, CHR 0x0C, CHR 0x0D])"

definition isdigit :: "char \<Rightarrow> bool" where
  "isdigit c = (c \<in> set ''0123456789'')"

definition isxdigit :: "char \<Rightarrow> bool" where
  "isxdigit c = (c \<in> set ''0123456789abcdefABCDEF'')"

definition xdigit_val :: "char \<Rightarrow> nat" where
  "xdigit_val c =
     (if isdigit c then of_char c - 48
      else if c \<in> set ''abcdef'' then of_char c - 87
      else of_char c - 55)"

definition digits_val :: "string \<Rightarrow> nat" where
  "digits_val ds = foldl (\<lambda>a c. 10 * a + (of_char c - 48)) 0 ds"

definition xdigits_val :: "string \<Rightarrow> nat" where
  "xdigits_val ds = foldl (\<lambda>a c. 16 * a + xdigit_val c) 0 ds"

text \<open>
  An exponent part: one of the two letters \<open>marks\<close>, an optional sign, decimal digits;
  0 when there is none.
\<close>

definition strtod_exponent :: "string \<Rightarrow> string \<Rightarrow> int" where
  "strtod_exponent marks s =
     (case s of
        [] \<Rightarrow> 0
      | c # r \<Rightarrow>
          if c \<in> set marks then
            (case r of
               [] \<Rightarrow> 0
             | d # r' \<Rightarrow>
                 if d = CHR ''-'' then - int (digits_val (takeWhile isdigit r'))
                 else if d = CHR ''+'' then int (digits_val (takeWhile isdigit r'))
                 else int (digits_val (takeWhile isdigit r)))
          else 0)"

text \<open>
  The decimal form: digits with an optional point, at least one digit, an optional
  exponent of ten. 0 when no digit is there: no conversion is performed.
\<close>

definition decimal_value :: "string \<Rightarrow> real" where
  "decimal_value s =
     (let ip = takeWhile isdigit s;
          s = dropWhile isdigit s;
          fp = (if s \<noteq> [] \<and> hd s = CHR ''.'' then takeWhile isdigit (tl s) else []);
          s = (if s \<noteq> [] \<and> hd s = CHR ''.'' then dropWhile isdigit (tl s) else s)
      in if ip = [] \<and> fp = [] then 0
         else real (digits_val (ip @ fp)) / 10 ^ length fp * 10 powi strtod_exponent ''eE'' s)"

text \<open>
  The hexadecimal form: \<open>0x\<close> or \<open>0X\<close>, hexadecimal digits with an optional point, at
  least one digit, an optional exponent of two. \<open>hex_value\<close> takes the string after the
  prefix.
\<close>

definition is_hex :: "string \<Rightarrow> bool" where
  "is_hex s =
     (case s of
        z # x # r \<Rightarrow>
          z = CHR ''0'' \<and> x \<in> set ''xX''
          \<and> (takeWhile isxdigit r \<noteq> []
               \<or> (r \<noteq> [] \<and> hd r = CHR ''.'' \<and> takeWhile isxdigit (tl r) \<noteq> []))
      | _ \<Rightarrow> False)"

definition hex_value :: "string \<Rightarrow> real" where
  "hex_value s =
     (let ip = takeWhile isxdigit s;
          s = dropWhile isxdigit s;
          fp = (if s \<noteq> [] \<and> hd s = CHR ''.'' then takeWhile isxdigit (tl s) else []);
          s = (if s \<noteq> [] \<and> hd s = CHR ''.'' then dropWhile isxdigit (tl s) else s)
      in real (xdigits_val (ip @ fp)) / 16 ^ length fp * 2 powi strtod_exponent ''pP'' s)"

text \<open>The forms \<open>INF\<close>, \<open>INFINITY\<close> and \<open>NAN\<close>, \<open>NAN(...)\<close>, in letters of either case.\<close>

definition is_inf :: "string \<Rightarrow> bool" where
  "is_inf s =
     (case s of
        a # b # c # r \<Rightarrow> a \<in> set ''iI'' \<and> b \<in> set ''nN'' \<and> c \<in> set ''fF''
      | _ \<Rightarrow> False)"

definition is_nan :: "string \<Rightarrow> bool" where
  "is_nan s =
     (case s of
        a # b # c # r \<Rightarrow> a \<in> set ''nN'' \<and> b \<in> set ''aA'' \<and> c \<in> set ''nN''
      | _ \<Rightarrow> False)"

text \<open>
  A value too large for a \<open>double\<close> is returned as \<open>HUGE_VAL\<close>, an infinity: from
  \<open>2^1024 - 2^970\<close> on, the nearest \<open>double\<close> is no longer finite.
\<close>

definition to_double :: "real \<Rightarrow> double" where
  "to_double v =
     (if v \<ge> 2 ^ 1024 - 2 ^ 970 then PosInf
      else if v \<le> - (2 ^ 1024 - 2 ^ 970) then NegInf
      else Finite v)"

text \<open>
  \<open>strtod nptr\<close> in the C locale (the program never sets another): white space, an
  optional sign, then an infinity, a NaN, a hexadecimal or a decimal number; zero when
  none of them starts there. The rounding of a finite value to a \<open>double\<close> is not
  modelled. The end pointer \<open>eptr\<close> is never read by the program.
\<close>

definition strtod :: "string \<Rightarrow> double" where
  "strtod nptr =
     (let s = dropWhile isspace nptr;
          neg = (s \<noteq> [] \<and> hd s = CHR ''-'');
          s = (if s \<noteq> [] \<and> (hd s = CHR ''-'' \<or> hd s = CHR ''+'') then tl s else s)
      in if is_inf s then (if neg then NegInf else PosInf)
         else if is_nan s then NaN
         else to_double ((if neg then - 1 else 1)
                * (if is_hex s then hex_value (drop 2 s) else decimal_value s)))"

text \<open>
  One call of \<open>recvfrom\<close> on the bound socket. \<open>Timeout\<close>: it returned -1 (no datagram
  within \<open>COMMS_TIMEOUT_SEC\<close>; any other error reads the same to the program).
  \<open>Datagram payload\<close>: it delivered this datagram, cut to the size of the buffer, and
  returned the number of bytes it stored.
\<close>

datatype recv_event = Timeout | Datagram string

definition recvfrom :: "recv_event \<Rightarrow> string \<Rightarrow> int \<times> string" where
  "recvfrom ev buffer =
     (case ev of
        Timeout \<Rightarrow> (- 1, buffer)
      | Datagram payload \<Rightarrow>
          (int (min (length payload) (length buffer)),
           take (length buffer) payload @ drop (length payload) buffer))"

subsection \<open>The receive loop of \<open>commsThread\<close>\<close>

text \<open>Behaviour the C standard leaves undefined, as a value.\<close>

datatype fault =
    StoreOutOfBounds nat  \<comment> \<open>a store to \<open>buffer[i]\<close> with \<open>i\<close> not below the array's size\<close>
  | NullPointer  \<comment> \<open>\<open>strtod\<close> called with the \<open>NULL\<close> that \<open>strtok\<close> returned\<close>

text \<open>
  The body of \<open>while (running)\<close> in \<open>commsThread\<close>: what it writes to the two globals under
  the mutex, or the fault it runs into before. Its \<open>printf\<close> lines are left out.
\<close>

definition commsIteration :: "recv_event \<Rightarrow> fault + demand" where
  "commsIteration ev =
     (let (nbytes, buffer) = recvfrom ev (replicate 20 NUL) in
      if nbytes > 0 then
        (if nat nbytes < length buffer then
           (let buffer = buffer[nat nbytes := NUL] in
            case strtok (c_str buffer) '','' of
              None \<Rightarrow> Inl NullPointer
            | Some (ptr, save) \<Rightarrow>
                (let tmpThrottle = strtod ptr in
                 case strtok save '','' of
                   None \<Rightarrow> Inl NullPointer
                 | Some (ptr, save) \<Rightarrow>
                     Inr \<lparr>throttle = tmpThrottle, rudder = strtod ptr\<rparr>))
         else Inl (StoreOutOfBounds (nat nbytes)))
      else Inr zero_demand)"

text \<open>
  The same body, followed through the store at \<open>buffer[20]\<close>. The C standard leaves that
  store undefined, and \<open>commsIteration\<close> stops there. On the machine the store goes to
  the byte that follows the array in memory, and that byte is the one \<open>strtok\<close> reads as
  the end of the string when the 20 bytes of a long datagram hold no NUL.
  \<open>commsIteration_overrun\<close> is the body under this reading of the store, and under the
  assumption that nothing else writes that byte before \<open>strtok\<close> reads it: the array and
  the byte after it, which holds \<open>after\<close> before the store, are one row of 21 cells.
\<close>

definition commsIteration_overrun :: "char \<Rightarrow> recv_event \<Rightarrow> fault + demand" where
  "commsIteration_overrun after ev =
     (let (nbytes, buffer) = recvfrom ev (replicate 20 NUL) in
      if nbytes > 0 then
        (let cells = (buffer @ [after])[nat nbytes := NUL] in
         case strtok (c_str cells) '','' of
           None \<Rightarrow> Inl NullPointer
         | Some (ptr, save) \<Rightarrow>
             (let tmpThrottle = strtod ptr in
              case strtok save '','' of
                None \<Rightarrow> Inl NullPointer
              | Some (ptr, save) \<Rightarrow>
                  Inr \<lparr>throttle = tmpThrottle, rudder = strtod ptr\<rparr>))
      else Inr zero_demand)"

text \<open>
  The loop, over the outcomes of its \<open>recvfrom\<close> calls until it sees \<open>running = 0\<close>: the
  demands it published, in order, and the fault that ended it, if one did.
\<close>

fun commsLoop :: "recv_event list \<Rightarrow> demand list \<times> fault option" where
  "commsLoop [] = ([], None)"
| "commsLoop (ev # evs) =
     (case commsIteration ev of
        Inl f \<Rightarrow> ([], Some f)
      | Inr d \<Rightarrow> (d # fst (commsLoop evs), snd (commsLoop evs)))"

text \<open>The globals after a run of publishes, from their value \<open>g\<close> before.\<close>

definition globals_after :: "demand \<Rightarrow> demand list \<Rightarrow> demand" where
  "globals_after g ds = (if ds = [] then g else last ds)"

subsection \<open>The whole program: \<open>main\<close> and the thread it starts\<close>

text \<open>What the robot control library returns to \<open>main\<close> at start-up.\<close>

record hw =
  adc_init_ret :: int  \<comment> \<open>\<open>rc_adc_init()\<close>\<close>
  batt :: "real list"  \<comment> \<open>the readings of successive \<open>rc_adc_batt()\<close> calls\<close>
  servo_init_ret :: int  \<comment> \<open>\<open>rc_servo_init()\<close>\<close>

text \<open>What the socket calls return to \<open>commsThread\<close>.\<close>

record sock =
  socket_ret :: int
  setsockopt_reuse_ret :: int
  setsockopt_timeo_ret :: int
  bind_ret :: int

text \<open>
  \<open>commsThread\<close> before its loop: what it writes to \<open>stderr\<close>, and whether it reaches the
  loop. On a failed call it returns \<open>NULL\<close> from the thread function.
\<close>

definition comms_setup :: "sock \<Rightarrow> action list \<times> bool" where
  "comms_setup k =
     (if socket_ret k < 0 then ([Stderr ''create socket failed\<newline>''], False)
      else if setsockopt_reuse_ret k < 0 then ([Stderr ''configure socket failed 1\<newline>''], False)
      else if setsockopt_timeo_ret k < 0 then ([Stderr ''configure socket failed 2\<newline>''], False)
      else if bind_ret k < 0 then ([Stderr ''bind socket failed\<newline>''], False)
      else ([], True))"

text \<open>
  \<open>while (rc_adc_batt() < 6.0)\<close>: a message and a sleep of five seconds for each reading
  below 6.0. \<open>None\<close>: the readings never reach 6.0 and \<open>main\<close> stays in this loop.
\<close>

definition battery_message :: string where
  "battery_message =
     ''Battery disconnected or insufficiently charged to drive servos, waiting until connected...\<newline>''"

fun wait_battery :: "real list \<Rightarrow> action list option" where
  "wait_battery [] = None"
| "wait_battery (v # vs) =
     (if v < 6 then
        (case wait_battery vs of
           None \<Rightarrow> None
         | Some as \<Rightarrow>
             Some (Stdout battery_message # Usleep 5000000 # as))
      else Some [])"

text \<open>
  The two loops run side by side until each sees \<open>running = 0\<close>, which the handler of
  \<open>SIGINT\<close> sets. Each pass of either loop touches the globals in one critical section
  of the mutex, so a run is a sequence of passes in the order of their critical sections:
  \<open>Cycle\<close> is a pass of the servo loop of \<open>main\<close>, \<open>Recv ev\<close> a pass of the receive loop
  whose \<open>recvfrom\<close> had the outcome \<open>ev\<close>. The list ends where the signal is seen.
\<close>

datatype loop_pass = Cycle | Recv recv_event

text \<open>
  The calls \<open>main\<close> makes during the passes, from the globals \<open>g\<close>, and the fault that
  cut the run short, if one did: a fault in the receive loop leaves the behaviour of the
  whole process undefined from there on. \<open>listening\<close> says whether \<open>commsThread\<close> reached
  its loop (if not, nothing receives).
\<close>

fun run_loops :: "bool \<Rightarrow> loop_pass list \<Rightarrow> demand \<Rightarrow> action list \<times> fault option" where
  "run_loops listening [] g = ([], None)"
| "run_loops listening (Cycle # ps) g =
     (servo_cycle g @ fst (run_loops listening ps g), snd (run_loops listening ps g))"
| "run_loops listening (Recv ev # ps) g =
     (if listening then
        (case commsIteration ev of
           Inl f \<Rightarrow> ([], Some f)
         | Inr d \<Rightarrow> run_loops listening ps d)
      else run_loops listening ps g)"

text \<open>How the process ends: the value \<open>main\<close> returns, or undefined behaviour.\<close>

datatype ending = Exit int | Undefined fault

definition startup :: "action list" where
  "startup =
     [AdcCleanup,
      Stdout ''Turning On 6V Servo Power Rail\<newline>'',
      PowerRail True,
      Stdout ''Zero output\<newline>'',
      SendPulse THROTTLE_SERVO THROTTLE_MIN_PULSE_LENGTH_USEC,
      SendPulse RUDDER_SERVO RUDDER_CENTRE_PULSE_LENGTH_USEC,
      Usleep 2000000,
      ThreadCreate]"

definition shutdown :: "action list" where
  "shutdown =
     [ThreadJoin,
      SendPulse THROTTLE_SERVO THROTTLE_MIN_PULSE_LENGTH_USEC,
      SendPulse RUDDER_SERVO RUDDER_CENTRE_PULSE_LENGTH_USEC,
      Usleep 50000,
      PowerRail False,
      ServoCleanup]"

text \<open>
  \<open>main\<close>: the calls it makes, what \<open>commsThread\<close> wrote to \<open>stderr\<close>, and how the process
  ends. \<open>None\<close>: \<open>main\<close> never leaves the battery loop.
\<close>

definition main :: "hw \<Rightarrow> sock \<Rightarrow> loop_pass list \<Rightarrow> (action list \<times> action list \<times> ending) option" where
  "main h k passes =
     (if adc_init_ret h \<noteq> 0 then
        Some ([Stderr ''ERROR: failed to run rc_adc_init()\<newline>''], [], Exit (- 1))
      else
        (case wait_battery (batt h) of
           None \<Rightarrow> None
         | Some waits \<Rightarrow>
             if servo_init_ret h \<noteq> 0 then Some (waits @ [AdcCleanup], [], Exit (- 1))
             else
               (case run_loops (snd (comms_setup k)) passes zero_demand of
                  (cycles, Some f) \<Rightarrow>
                    Some (waits @ startup @ cycles, fst (comms_setup k), Undefined f)
                | (cycles, None) \<Rightarrow>
                    Some (waits @ startup @ cycles @ shutdown, fst (comms_setup k), Exit 0))))"

subsection \<open>The two critical sections, statement by statement\<close>

text \<open>
  The writes of \<open>commsThread\<close> and the reads of \<open>main\<close> between
  \<open>pthread_mutex_lock\<close> and \<open>pthread_mutex_unlock\<close>, one statement a step, in any
  interleaving of the two threads. A thread that calls \<open>pthread_mutex_lock\<close> while the
  other holds the mutex waits: its step changes nothing.
\<close>

datatype thread = CommsThread | MainThread

text \<open>
  Where a thread is: outside its critical section, after the lock, after its assignment
  of the throttle variable, after its assignment of the rudder variable.
\<close>

datatype pc = Outside | Locked | Half | Both

record mem =
  mutex :: "thread option"  \<comment> \<open>the thread that holds the mutex\<close>
  globals :: demand  \<comment> \<open>the globals \<open>throttle\<close> and \<open>rudder\<close>\<close>
  comms_pc :: pc
  comms_tmp :: "demand list"
    \<comment> \<open>\<open>tmpThrottle\<close> and \<open>tmpRudder\<close> of \<open>commsThread\<close>, for this pass and the later ones\<close>
  main_pc :: pc
  main_tmp :: demand  \<comment> \<open>\<open>tmpThrottle\<close> and \<open>tmpRudder\<close> of \<open>main\<close>\<close>
  copies :: "demand list"  \<comment> \<open>the copies \<open>main\<close> left its critical sections with\<close>

definition comms_step :: "mem \<Rightarrow> mem" where
  "comms_step s =
     (case comms_tmp s of
        [] \<Rightarrow> s
      | d # ds \<Rightarrow>
          (case comms_pc s of
             Outside \<Rightarrow>
               if mutex s = None then s\<lparr>mutex := Some CommsThread, comms_pc := Locked\<rparr> else s
           | Locked \<Rightarrow> s\<lparr>globals := (globals s)\<lparr>throttle := throttle d\<rparr>, comms_pc := Half\<rparr>
           | Half \<Rightarrow> s\<lparr>globals := (globals s)\<lparr>rudder := rudder d\<rparr>, comms_pc := Both\<rparr>
           | Both \<Rightarrow> s\<lparr>mutex := None, comms_pc := Outside, comms_tmp := ds\<rparr>))"

definition main_step :: "mem \<Rightarrow> mem" where
  "main_step s =
     (case main_pc s of
        Outside \<Rightarrow>
          if mutex s = None then s\<lparr>mutex := Some MainThread, main_pc := Locked\<rparr> else s
      | Locked \<Rightarrow> s\<lparr>main_tmp := (main_tmp s)\<lparr>throttle := throttle (globals s)\<rparr>, main_pc := Half\<rparr>
      | Half \<Rightarrow> s\<lparr>main_tmp := (main_tmp s)\<lparr>rudder := rudder (globals s)\<rparr>, main_pc := Both\<rparr>
      | Both \<Rightarrow> s\<lparr>mutex := None, main_pc := Outside, copies := copies s @ [main_tmp s]\<rparr>)"

definition thread_step :: "thread \<Rightarrow> mem \<Rightarrow> mem" where
  "thread_step t s = (case t of CommsThread \<Rightarrow> comms_step s | MainThread \<Rightarrow> main_step s)"

text \<open>A run: the threads take their steps in the order the schedule names them.\<close>

fun interleave :: "thread list \<Rightarrow> mem \<Rightarrow> mem" where
  "interleave [] s = s"
| "interleave (t # ts) s = interleave ts (thread_step t s)"

text \<open>
  The start: the mutex free, the globals zero, \<open>commsThread\<close> about to publish \<open>pubs\<close> one
  after the other, the locals of \<open>main\<close> holding anything.
\<close>

definition initial :: "demand list \<Rightarrow> demand \<Rightarrow> mem" where
  "initial pubs tmp =
     \<lparr>mutex = None, globals = zero_demand, comms_pc = Outside, comms_tmp = pubs,
      main_pc = Outside, main_tmp = tmp, copies = []\<rparr>"

text \<open>
  What holds of every state of every run, for \<open>P\<close> the demands that are the initial one or
  one of the published ones.
\<close>

definition consistent :: "demand set \<Rightarrow> mem \<Rightarrow> bool" where
  "consistent P s \<longleftrightarrow>
     set (comms_tmp s) \<subseteq> P \<and> set (copies s) \<subseteq> P
     \<and> (comms_pc s = Outside \<longrightarrow> globals s \<in> P)
     \<and> (comms_pc s \<noteq> Outside \<longrightarrow> mutex s = Some CommsThread \<and> comms_tmp s \<noteq> [])
     \<and> (comms_pc s = Half \<longrightarrow> throttle (globals s) = throttle (hd (comms_tmp s)))
     \<and> (comms_pc s = Both \<longrightarrow> globals s = hd (comms_tmp s))
     \<and> (main_pc s \<noteq> Outside \<longrightarrow> mutex s = Some MainThread)
     \<and> (main_pc s = Half \<longrightarrow> throttle (main_tmp s) = throttle (globals s))
     \<and> (main_pc s = Both \<longrightarrow> main_tmp s = globals s)"

section \<open>Properties of the pulse computation\<close>

lemmas config_defs =
  THROTTLE_SERVO_def RUDDER_SERVO_def
  THROTTLE_MIN_PULSE_LENGTH_USEC_def THROTTLE_MAX_PULSE_LENGTH_USEC_def
  RUDDER_MIN_PULSE_LENGTH_USEC_def RUDDER_MAX_PULSE_LENGTH_USEC_def
  SERVO_PULSE_RATE_HZ_def THROTTLE_RANGE_USEC_def RUDDER_RANGE_USEC_def
  RUDDER_CENTRE_PULSE_LENGTH_USEC_def

lemma pulses_append: "pulses ch (xs @ ys) = pulses ch xs @ pulses ch ys"
  by (induction ch xs rule: pulses.induct) simp_all

lemma pulses_throttle_cycle:
  "pulses THROTTLE_SERVO (servo_cycle d) = [throttle_usec (throttle d)]"
  by (simp add: servo_cycle_def Let_def pulses_append THROTTLE_SERVO_def RUDDER_SERVO_def)

lemma pulses_rudder_cycle:
  "pulses RUDDER_SERVO (servo_cycle d) = [rudder_usec (rudder d)]"
  by (simp add: servo_cycle_def Let_def pulses_append THROTTLE_SERVO_def RUDDER_SERVO_def)

lemma throttle_usec_mono:
  assumes "0 \<le> v" "v \<le> w" "w \<le> 100"
  shows "throttle_usec (Finite v) \<le> throttle_usec (Finite w)"
proof -
  have "v / 100 * 1200 \<le> w / 100 * 1200"
    using assms by simp
  with assms show ?thesis
    by (simp add: throttle_usec_def config_defs)
qed

lemma servo_loop_append: "servo_loop (xs @ ys) = servo_loop xs @ servo_loop ys"
  by (induction xs) simp_all

text \<open>
  C5. In every cycle the pulse sent on the throttle channel is \<open>throttle_usec\<close> of the
  throttle demand. For a demand \<open>v\<close> in [0, 100] it is
  \<open>min_usec + (v / 100) * (max_usec - min_usec)\<close>; so 0 gives \<open>min_usec\<close>, 100 gives
  \<open>max_usec\<close>, and the pulse does not decrease as the demand grows within [0, 100]. For a
  demand \<open>u\<close> below 0 or above 100 it is \<open>min_usec\<close>, and the loop goes on: the cycles of
  all later demands \<open>ds2\<close> still run after it. It is \<open>min_usec\<close> for an infinity and for a
  NaN too.
\<close>

theorem throttle_pulse_mapping:
  "pulses THROTTLE_SERVO (servo_cycle \<lparr>throttle = t, rudder = r\<rparr>) = [throttle_usec t]
   \<and> (0 \<le> v \<and> v \<le> 100 \<longrightarrow>
        throttle_usec (Finite v) =
          THROTTLE_MIN_PULSE_LENGTH_USEC
            + (v / 100) * (THROTTLE_MAX_PULSE_LENGTH_USEC - THROTTLE_MIN_PULSE_LENGTH_USEC))
   \<and> throttle_usec (Finite 0) = THROTTLE_MIN_PULSE_LENGTH_USEC
   \<and> throttle_usec (Finite 100) = THROTTLE_MAX_PULSE_LENGTH_USEC
   \<and> (0 \<le> v \<and> v \<le> w \<and> w \<le> 100 \<longrightarrow> throttle_usec (Finite v) \<le> throttle_usec (Finite w))
   \<and> (u < 0 \<or> u > 100 \<longrightarrow>
        throttle_usec (Finite u) = THROTTLE_MIN_PULSE_LENGTH_USEC
        \<and> servo_loop (ds1 @ \<lparr>throttle = Finite u, rudder = r\<rparr> # ds2) =
            servo_loop ds1 @ servo_cycle \<lparr>throttle = Finite u, rudder = r\<rparr> @ servo_loop ds2)
   \<and> throttle_usec PosInf = THROTTLE_MIN_PULSE_LENGTH_USEC
   \<and> throttle_usec NegInf = THROTTLE_MIN_PULSE_LENGTH_USEC
   \<and> throttle_usec NaN = THROTTLE_MIN_PULSE_LENGTH_USEC"
proof -
  have sent: "pulses THROTTLE_SERVO (servo_cycle \<lparr>throttle = t, rudder = r\<rparr>) = [throttle_usec t]"
    by (simp add: pulses_throttle_cycle)
  have in_range: "0 \<le> v \<and> v \<le> 100 \<longrightarrow>
        throttle_usec (Finite v) =
          THROTTLE_MIN_PULSE_LENGTH_USEC
            + (v / 100) * (THROTTLE_MAX_PULSE_LENGTH_USEC - THROTTLE_MIN_PULSE_LENGTH_USEC)"
    by (simp add: throttle_usec_def THROTTLE_RANGE_USEC_def)
  have at_0: "throttle_usec (Finite 0) = THROTTLE_MIN_PULSE_LENGTH_USEC"
    by (simp add: throttle_usec_def)
  have at_100: "throttle_usec (Finite 100) = THROTTLE_MAX_PULSE_LENGTH_USEC"
    by (simp add: throttle_usec_def THROTTLE_RANGE_USEC_def)
  have mono: "0 \<le> v \<and> v \<le> w \<and> w \<le> 100 \<longrightarrow> throttle_usec (Finite v) \<le> throttle_usec (Finite w)"
    using throttle_usec_mono by blast
  have out: "u < 0 \<or> u > 100 \<longrightarrow> throttle_usec (Finite u) = THROTTLE_MIN_PULSE_LENGTH_USEC"
    by (auto simp add: throttle_usec_def)
  have goes_on: "servo_loop (ds1 @ \<lparr>throttle = Finite u, rudder = r\<rparr> # ds2) =
            servo_loop ds1 @ servo_cycle \<lparr>throttle = Finite u, rudder = r\<rparr> @ servo_loop ds2"
    by (simp add: servo_loop_append)
  have not_finite: "throttle_usec PosInf = THROTTLE_MIN_PULSE_LENGTH_USEC"
    "throttle_usec NegInf = THROTTLE_MIN_PULSE_LENGTH_USEC"
    "throttle_usec NaN = THROTTLE_MIN_PULSE_LENGTH_USEC"
    by (simp_all add: throttle_usec_def)
  from sent in_range at_0 at_100 mono out goes_on not_finite show ?thesis
    by blast
qed

theorem throttle_pulse_mapping_witness:
  "pulses THROTTLE_SERVO (servo_cycle \<lparr>throttle = Finite 25, rudder = Finite 0\<rparr>) = [1200]
   \<and> throttle_usec (Finite 25) \<le> throttle_usec (Finite 50)
   \<and> throttle_usec (Finite 150) = 900
   \<and> pulses THROTTLE_SERVO
        (servo_loop [\<lparr>throttle = Finite 150, rudder = Finite 0\<rparr>,
                     \<lparr>throttle = Finite 100, rudder = Finite 0\<rparr>]) =
        [900, 2100]"
proof -
  note t = throttle_pulse_mapping
    [of "Finite 25" "Finite 0" 25 50 150 "[]" "[\<lparr>throttle = Finite 100, rudder = Finite 0\<rparr>]"]
  have "pulses THROTTLE_SERVO (servo_cycle \<lparr>throttle = Finite 25, rudder = Finite 0\<rparr>) = [1200]"
    using t by (simp add: config_defs)
  moreover have "throttle_usec (Finite 25) \<le> throttle_usec (Finite 50)"
    using t by simp
  moreover have u: "throttle_usec (Finite 150) = 900"
    using t by (simp add: config_defs)
  moreover have "pulses THROTTLE_SERVO
        (servo_loop [\<lparr>throttle = Finite 150, rudder = Finite 0\<rparr>,
                     \<lparr>throttle = Finite 100, rudder = Finite 0\<rparr>]) =
        [900, 2100]"
    using t u by (simp add: pulses_append pulses_throttle_cycle
        THROTTLE_MIN_PULSE_LENGTH_USEC_def THROTTLE_MAX_PULSE_LENGTH_USEC_def)
  ultimately show ?thesis by blast
qed

text \<open>
  C6. In every cycle the pulse sent on the rudder channel is \<open>rudder_usec\<close> of the rudder
  demand. For a demand \<open>v\<close> in [-100, 100] it is
  \<open>centre_usec + (v / 200) * (max_usec - min_usec)\<close> with
  \<open>centre_usec = min_usec + (max_usec - min_usec) / 2\<close>; so the pulses of \<open>v\<close> and \<open>- v\<close>
  add up to twice \<open>centre_usec\<close> and 0 gives \<open>centre_usec\<close>. For a demand \<open>u\<close> below
  -100 or above 100 it is \<open>centre_usec\<close>, and so it is for an infinity and for a NaN.
\<close>

theorem rudder_pulse_mapping:
  "pulses RUDDER_SERVO (servo_cycle \<lparr>throttle = t, rudder = r\<rparr>) = [rudder_usec r]
   \<and> RUDDER_CENTRE_PULSE_LENGTH_USEC =
        RUDDER_MIN_PULSE_LENGTH_USEC
          + (RUDDER_MAX_PULSE_LENGTH_USEC - RUDDER_MIN_PULSE_LENGTH_USEC) / 2
   \<and> (- 100 \<le> v \<and> v \<le> 100 \<longrightarrow>
        rudder_usec (Finite v) =
          RUDDER_CENTRE_PULSE_LENGTH_USEC
            + (v / 200) * (RUDDER_MAX_PULSE_LENGTH_USEC - RUDDER_MIN_PULSE_LENGTH_USEC))
   \<and> (- 100 \<le> v \<and> v \<le> 100 \<longrightarrow>
        rudder_usec (Finite v) + rudder_usec (Finite (- v)) = 2 * RUDDER_CENTRE_PULSE_LENGTH_USEC)
   \<and> rudder_usec (Finite 0) = RUDDER_CENTRE_PULSE_LENGTH_USEC
   \<and> (u < - 100 \<or> u > 100 \<longrightarrow> rudder_usec (Finite u) = RUDDER_CENTRE_PULSE_LENGTH_USEC)
   \<and> rudder_usec PosInf = RUDDER_CENTRE_PULSE_LENGTH_USEC
   \<and> rudder_usec NegInf = RUDDER_CENTRE_PULSE_LENGTH_USEC
   \<and> rudder_usec NaN = RUDDER_CENTRE_PULSE_LENGTH_USEC"
proof -
  have sent: "pulses RUDDER_SERVO (servo_cycle \<lparr>throttle = t, rudder = r\<rparr>) = [rudder_usec r]"
    by (simp add: pulses_rudder_cycle)
  have centre: "RUDDER_CENTRE_PULSE_LENGTH_USEC =
        RUDDER_MIN_PULSE_LENGTH_USEC
          + (RUDDER_MAX_PULSE_LENGTH_USEC - RUDDER_MIN_PULSE_LENGTH_USEC) / 2"
    by (simp add: RUDDER_CENTRE_PULSE_LENGTH_USEC_def)
  have in_range: "- 100 \<le> v \<and> v \<le> 100 \<longrightarrow>
        rudder_usec (Finite v) =
          RUDDER_CENTRE_PULSE_LENGTH_USEC
            + (v / 200) * (RUDDER_MAX_PULSE_LENGTH_USEC - RUDDER_MIN_PULSE_LENGTH_USEC)"
    by (simp add: rudder_usec_def RUDDER_RANGE_USEC_def)
  have sym: "- 100 \<le> v \<and> v \<le> 100 \<longrightarrow>
        rudder_usec (Finite v) + rudder_usec (Finite (- v)) = 2 * RUDDER_CENTRE_PULSE_LENGTH_USEC"
    by (simp add: rudder_usec_def)
  have at_0: "rudder_usec (Finite 0) = RUDDER_CENTRE_PULSE_LENGTH_USEC"
    by (simp add: rudder_usec_def)
  have out: "u < - 100 \<or> u > 100 \<longrightarrow> rudder_usec (Finite u) = RUDDER_CENTRE_PULSE_LENGTH_USEC"
    by (auto simp add: rudder_usec_def)
  have not_finite: "rudder_usec PosInf = RUDDER_CENTRE_PULSE_LENGTH_USEC"
    "rudder_usec NegInf = RUDDER_CENTRE_PULSE_LENGTH_USEC"
    "rudder_usec NaN = RUDDER_CENTRE_PULSE_LENGTH_USEC"
    by (simp_all add: rudder_usec_def)
  from sent centre in_range sym at_0 out not_finite show ?thesis
    by blast
qed

theorem rudder_pulse_mapping_witness:
  "pulses RUDDER_SERVO (servo_cycle \<lparr>throttle = Finite 0, rudder = Finite 50\<rparr>) = [1800]
   \<and> rudder_usec (Finite 50) + rudder_usec (Finite (- 50)) = 3000
   \<and> rudder_usec (Finite (- 101)) = 1500"
proof -
  note t = rudder_pulse_mapping [of "Finite 0" "Finite 50" 50 "- 101"]
  have "pulses RUDDER_SERVO (servo_cycle \<lparr>throttle = Finite 0, rudder = Finite 50\<rparr>) = [1800]"
    using t by (simp add: config_defs)
  moreover have "rudder_usec (Finite 50) + rudder_usec (Finite (- 50)) = 3000"
    using t by (simp add: config_defs)
  moreover have "rudder_usec (Finite (- 101)) = 1500"
    using t by (simp add: config_defs)
  ultimately show ?thesis by blast
qed

text \<open>
  C7. Each channel's pulse depends only on its own demand: two demands with the same
  rudder value send the same rudder pulse whatever their throttle values are (in range
  or not), and two demands with the same throttle value send the same throttle pulse
  whatever their rudder values are.
\<close>

theorem axes_independent:
  "(rudder d1 = rudder d2 \<longrightarrow>
      pulses RUDDER_SERVO (servo_cycle d1) = pulses RUDDER_SERVO (servo_cycle d2))
   \<and> (throttle d1 = throttle d2 \<longrightarrow>
      pulses THROTTLE_SERVO (servo_cycle d1) = pulses THROTTLE_SERVO (servo_cycle d2))"
  by (simp add: pulses_rudder_cycle pulses_throttle_cycle)

theorem axes_independent_witness:
  "pulses RUDDER_SERVO (servo_cycle \<lparr>throttle = Finite 150, rudder = Finite 20\<rparr>) =
     pulses RUDDER_SERVO (servo_cycle \<lparr>throttle = Finite 50, rudder = Finite 20\<rparr>)
   \<and> pulses THROTTLE_SERVO (servo_cycle \<lparr>throttle = Finite 50, rudder = NaN\<rparr>) =
     pulses THROTTLE_SERVO (servo_cycle \<lparr>throttle = Finite 50, rudder = Finite 20\<rparr>)"
proof -
  have "pulses RUDDER_SERVO (servo_cycle \<lparr>throttle = Finite 150, rudder = Finite 20\<rparr>) =
     pulses RUDDER_SERVO (servo_cycle \<lparr>throttle = Finite 50, rudder = Finite 20\<rparr>)"
    using axes_independent
      [of "\<lparr>throttle = Finite 150, rudder = Finite 20\<rparr>"
          "\<lparr>throttle = Finite 50, rudder = Finite 20\<rparr>"]
    by simp
  moreover have "pulses THROTTLE_SERVO (servo_cycle \<lparr>throttle = Finite 50, rudder = NaN\<rparr>) =
     pulses THROTTLE_SERVO (servo_cycle \<lparr>throttle = Finite 50, rudder = Finite 20\<rparr>)"
    using axes_independent
      [of "\<lparr>throttle = Finite 50, rudder = NaN\<rparr>"
          "\<lparr>throttle = Finite 50, rudder = Finite 20\<rparr>"]
    by simp
  ultimately show ?thesis by blast
qed

section \<open>Properties of the receive loop\<close>

lemmas strtod_defs =
  strtod_def isspace_def isdigit_def isxdigit_def xdigit_val_def digits_val_def xdigits_val_def
  strtod_exponent_def decimal_value_def is_hex_def hex_value_def is_inf_def is_nan_def
  to_double_def Let_def

lemma c_str_padded: "c_str (p @ replicate n NUL) = c_str p"
proof (cases "\<forall>c\<in>set p. c \<noteq> NUL")
  case True
  then have tw: "takeWhile (\<lambda>c. c \<noteq> NUL) p = p"
    by simp
  show ?thesis
    by (cases n) (simp_all add: c_str_def takeWhile_append tw)
next
  case False
  then show ?thesis
    by (auto simp add: c_str_def takeWhile_append)
qed

lemma c_str_terminated: "c_str (p @ NUL # q) = c_str p"
proof (cases "\<forall>c\<in>set p. c \<noteq> NUL")
  case True
  then have tw: "takeWhile (\<lambda>c. c \<noteq> NUL) p = p"
    by simp
  show ?thesis
    by (simp add: c_str_def takeWhile_append tw)
next
  case False
  then show ?thesis
    by (auto simp add: c_str_def takeWhile_append)
qed

lemma buffer_after_store:
  "(p @ replicate n NUL)[length p := NUL] = p @ replicate n NUL"
proof -
  have "(p @ replicate n NUL)[length p := NUL] = p @ (replicate n NUL)[0 := NUL]"
    by (simp add: list_update_append)
  also have "(replicate n NUL)[0 := NUL] = replicate n NUL"
    by (rule nth_equalityI) (simp_all add: nth_list_update)
  finally show ?thesis .
qed

lemma commsIteration_Timeout: "commsIteration Timeout = Inr zero_demand"
  by (simp add: commsIteration_def recvfrom_def)

lemma commsIteration_empty: "commsIteration (Datagram []) = Inr zero_demand"
  by (simp add: commsIteration_def recvfrom_def)

lemma commsIteration_long:
  assumes "20 \<le> length p"
  shows "commsIteration (Datagram p) = Inl (StoreOutOfBounds 20)"
  using assms by (simp add: commsIteration_def recvfrom_def min_def)

lemma commsIteration_Datagram:
  assumes "p \<noteq> []" "length p < 20"
  shows "commsIteration (Datagram p) =
     (case strtok (c_str p) '','' of
        None \<Rightarrow> Inl NullPointer
      | Some (ptr, save) \<Rightarrow>
          (case strtok save '','' of
             None \<Rightarrow> Inl NullPointer
           | Some (ptr', save') \<Rightarrow> Inr \<lparr>throttle = strtod ptr, rudder = strtod ptr'\<rparr>))"
proof -
  have n: "min (length p) 20 = length p" "0 < length p"
    using assms by simp_all
  show ?thesis
    using assms
    by (simp add: commsIteration_def recvfrom_def n buffer_after_store c_str_padded Let_def
        split: option.split prod.split)
qed

text \<open>
  Followed through the store, the body reads the C string of the first 20 bytes of the
  datagram, whatever the byte after the array held.
\<close>

lemma cells_after_store:
  "c_str ((take 20 p @ replicate (20 - length p) NUL @ [after])[min (length p) 20 := NUL])
     = c_str (take 20 p)"
proof (cases "length p < 20")
  case True
  then obtain m where m: "20 - length p = Suc m"
    by (cases "20 - length p") simp_all
  have "(p @ replicate (20 - length p) NUL @ [after])[length p := NUL]
          = p @ (replicate (20 - length p) NUL @ [after])[0 := NUL]"
    by (simp add: list_update_append)
  also have "\<dots> = p @ NUL # (replicate m NUL @ [after])"
    by (simp add: m)
  finally have "c_str ((p @ replicate (20 - length p) NUL @ [after])[length p := NUL]) = c_str p"
    by (simp add: c_str_terminated)
  moreover have "take 20 p = p" "min (length p) 20 = length p"
    using True by simp_all
  ultimately show ?thesis
    by simp
next
  case False
  then have l: "length (take 20 p) = 20" "min (length p) 20 = 20" "20 - length p = 0"
    by simp_all
  have "(take 20 p @ [after])[20 := NUL] = take 20 p @ [after][20 - length (take 20 p) := NUL]"
    by (simp only: list_update_append l) simp
  also have "\<dots> = take 20 p @ [NUL]"
    by (simp only: l) simp
  finally have "c_str ((take 20 p @ [after])[20 := NUL]) = c_str (take 20 p)"
    using c_str_terminated [of "take 20 p" "[]"] by simp
  then show ?thesis
    by (simp only: l replicate_0 append_Nil)
qed

lemma commsIteration_overrun_Datagram:
  assumes "p \<noteq> []"
  shows "commsIteration_overrun after (Datagram p) =
     (case strtok (c_str (take 20 p)) '','' of
        None \<Rightarrow> Inl NullPointer
      | Some (ptr, save) \<Rightarrow>
          (case strtok save '','' of
             None \<Rightarrow> Inl NullPointer
           | Some (ptr', save') \<Rightarrow> Inr \<lparr>throttle = strtod ptr, rudder = strtod ptr'\<rparr>))"
proof -
  have n: "0 < length p"
    using assms by simp
  have r: "recvfrom (Datagram p) (replicate 20 NUL)
      = (int (min (length p) 20), take 20 p @ replicate (20 - length p) NUL)"
    by (simp add: recvfrom_def)
  have pos: "0 < int (min (length p) 20)"
    using n by simp
  show ?thesis
    unfolding commsIteration_overrun_def r
    using pos by (simp add: cells_after_store Let_def split: option.split prod.split)
qed

text \<open>Where the store is inside the array, following it through changes nothing.\<close>

lemma commsIteration_overrun_same:
  assumes "commsIteration ev = Inr d"
  shows "commsIteration_overrun after ev = Inr d"
proof (cases ev)
  case Timeout
  with assms show ?thesis
    by (simp add: commsIteration_def commsIteration_overrun_def recvfrom_def)
next
  case (Datagram p)
  show ?thesis
  proof (cases "p = []")
    case True
    with assms Datagram show ?thesis
      by (simp add: commsIteration_def commsIteration_overrun_def recvfrom_def)
  next
    case False
    have "length p < 20"
    proof (rule ccontr)
      assume "\<not> length p < 20"
      then have "commsIteration (Datagram p) = Inl (StoreOutOfBounds 20)"
        by (simp add: commsIteration_long)
      with assms Datagram show False by simp
    qed
    with assms Datagram False show ?thesis
      by (simp add: commsIteration_Datagram commsIteration_overrun_Datagram)
  qed
qed

text \<open>
  \<open>strtok\<close> on a string that starts with any number of delimiters, then a token, then
  either the end or a delimiter.
\<close>

lemma strtok_token:
  assumes "set seps \<subseteq> {CHR '',''}" "t \<noteq> []" "CHR '','' \<notin> set t"
    and "r = [] \<or> hd r = CHR '',''"
  shows "strtok (seps @ t @ r) '','' = Some (t, drop 1 r)"
proof -
  obtain c t' where t: "t = c # t'"
    using assms(2) by (cases t) auto
  have c: "c \<noteq> CHR '',''"
    using assms(3) t by auto
  have all: "\<forall>x\<in>set t. x \<noteq> CHR '',''"
    using assms(3) by auto
  have seps: "\<forall>x\<in>set seps. x = CHR '',''"
    using assms(1) by auto
  have tw: "takeWhile (\<lambda>c. c \<noteq> CHR '','') (t @ r) = t"
    using all assms(4) by (cases r) (simp_all add: takeWhile_append)
  have dw: "dropWhile (\<lambda>c. c \<noteq> CHR '','') (t @ r) = r"
    using all assms(4) by (cases r) (simp_all add: dropWhile_append)
  have "dropWhile (\<lambda>c. c \<in> set '','') (seps @ t @ r) = t @ r"
    using seps c t by (simp add: dropWhile_append)
  then show ?thesis
    using assms(2) tw dw by (simp add: strtok_def)
qed

lemma c_str_field:
  assumes "NUL \<notin> set f"
  shows "c_str (f @ r) = f @ c_str r"
  using assms by (auto simp add: c_str_def takeWhile_append)

lemma parse_two_fields:
  assumes "s = seps1 @ f1 @ CHR '','' # seps2 @ f2 @ rest"
    and "set seps1 \<subseteq> {CHR '',''}" "set seps2 \<subseteq> {CHR '',''}"
    and "f1 \<noteq> []" "CHR '','' \<notin> set f1" "NUL \<notin> set f1"
    and "f2 \<noteq> []" "CHR '','' \<notin> set f2" "NUL \<notin> set f2"
    and "rest = [] \<or> hd rest = CHR '','' \<or> hd rest = NUL"
  shows "(case strtok (c_str s) '','' of
        None \<Rightarrow> Inl NullPointer
      | Some (ptr, save) \<Rightarrow>
          (case strtok save '','' of
             None \<Rightarrow> Inl NullPointer
           | Some (ptr', save') \<Rightarrow> Inr \<lparr>throttle = strtod ptr, rudder = strtod ptr'\<rparr>))
     = (Inr \<lparr>throttle = strtod f1, rudder = strtod f2\<rparr> :: fault + demand)"
proof -
  have n1: "NUL \<notin> set seps1" "NUL \<notin> set seps2"
    using assms(2,3) by (auto simp add: NUL_def)
  have "c_str s = seps1 @ c_str (f1 @ CHR '','' # seps2 @ f2 @ rest)"
    using assms(1) n1 c_str_field [of seps1] by simp
  also have "c_str (f1 @ CHR '','' # seps2 @ f2 @ rest)
      = f1 @ c_str (CHR '','' # seps2 @ f2 @ rest)"
    using assms(6) c_str_field [of f1] by simp
  also have "c_str (CHR '','' # seps2 @ f2 @ rest) = CHR '','' # c_str (seps2 @ f2 @ rest)"
    by (simp add: c_str_def NUL_def)
  also have "c_str (seps2 @ f2 @ rest) = seps2 @ c_str (f2 @ rest)"
    using n1 c_str_field [of seps2] by simp
  also have "c_str (f2 @ rest) = f2 @ c_str rest"
    using assms(9) c_str_field [of f2] by simp
  finally have cs: "c_str s = seps1 @ f1 @ CHR '','' # (seps2 @ f2 @ c_str rest)"
    by simp
  have r: "c_str rest = [] \<or> hd (c_str rest) = CHR '',''"
    using assms(10) by (cases rest) (auto simp add: c_str_def NUL_def)
  have t1: "strtok (c_str s) '','' = Some (f1, seps2 @ f2 @ c_str rest)"
    using strtok_token [of seps1 f1 "CHR '','' # (seps2 @ f2 @ c_str rest)"] assms(2,4,5) cs
    by simp
  have t2: "strtok (seps2 @ f2 @ c_str rest) '','' = Some (f2, drop 1 (c_str rest))"
    using strtok_token [of seps2 f2 "c_str rest"] assms(3,7,8) r by simp
  show ?thesis
    by (simp add: t1 t2)
qed

lemma commsIteration_two_fields:
  assumes "payload = seps1 @ f1 @ CHR '','' # seps2 @ f2 @ rest"
    and "set seps1 \<subseteq> {CHR '',''}" "set seps2 \<subseteq> {CHR '',''}"
    and "f1 \<noteq> []" "CHR '','' \<notin> set f1" "NUL \<notin> set f1"
    and "f2 \<noteq> []" "CHR '','' \<notin> set f2" "NUL \<notin> set f2"
    and "rest = [] \<or> hd rest = CHR '','' \<or> hd rest = NUL"
    and "length payload < 20"
  shows "commsIteration (Datagram payload) = Inr \<lparr>throttle = strtod f1, rudder = strtod f2\<rparr>"
proof -
  have "payload \<noteq> []"
    using assms(1,4) by simp
  then show ?thesis
    using assms(11) parse_two_fields [OF assms(1-10)]
    by (simp add: commsIteration_Datagram)
qed


text \<open>
  In the C locale \<open>strtod\<close> performs no conversion, and returns zero, on a string whose
  first character starts none of its forms: neither white space, nor a sign, a digit or
  a point, nor the first letter of \<open>INF\<close> or \<open>NAN\<close>.
\<close>

lemma strtod_no_number:
  assumes "f \<noteq> []" "\<not> isspace (hd f)" "hd f \<notin> set ''+-.0123456789iInN''"
  shows "strtod f = Finite 0"
proof -
  obtain c f' where f: "f = c # f'"
    using assms(1) by (cases f) auto
  have c: "\<not> isspace c" "c \<noteq> CHR ''-''" "c \<noteq> CHR ''+''" "c \<noteq> CHR ''.''" "\<not> isdigit c"
    "c \<notin> set ''iI''" "c \<notin> set ''nN''" "c \<noteq> CHR ''0''"
    using assms(2,3) f by (auto simp add: isdigit_def)
  have "\<not> is_inf f" "\<not> is_nan f" "\<not> is_hex f"
    using c f by (auto simp add: is_inf_def is_nan_def is_hex_def split: list.splits)
  moreover have "decimal_value f = 0"
    using c f by (simp add: decimal_value_def)
  ultimately show ?thesis
    using c f by (simp add: strtod_def to_double_def)
qed

lemma commsLoop_append_timeouts:
  "commsLoop (replicate n Timeout @ evs) =
     (replicate n zero_demand @ fst (commsLoop evs), snd (commsLoop evs))"
  by (induction n) (simp_all add: commsIteration_Timeout)

text \<open>
  Fields in the other forms of \<open>strtod\<close>, and commas in a row. Then a payload with one
  field only: the second \<open>strtok\<close> returns \<open>NULL\<close> and \<open>strtod\<close> is
  called with it. The same happens for a payload of white space, and for a payload of
  commas at the first \<open>strtok\<close>.
\<close>

lemma not_finite_fields:
  "commsIteration (Datagram ''inf,20'') = Inr \<lparr>throttle = PosInf, rudder = Finite 20\<rparr>"
  "commsIteration (Datagram ''0x10,-nan'') = Inr \<lparr>throttle = Finite 16, rudder = NaN\<rparr>"
  "commsIteration (Datagram '',5,,6'') = Inr \<lparr>throttle = Finite 5, rudder = Finite 6\<rparr>"
  by (simp_all add: commsIteration_Datagram c_str_def NUL_def strtok_def strtod_defs)

lemma missing_field_faults:
  "commsIteration (Datagram ''50'') = Inl NullPointer"
  "commsIteration (Datagram '' '') = Inl NullPointer"
  "commsIteration (Datagram '','') = Inl NullPointer"
  by (simp_all add: commsIteration_Datagram c_str_def NUL_def strtok_def)

text \<open>
  Conversely, a payload on which both calls of \<open>strtok\<close> return a field is of that form.
\<close>

lemma strtok_Some:
  assumes "strtok s '','' = Some (t, save)"
  shows "\<exists>seps r. s = seps @ t @ r \<and> set seps \<subseteq> {CHR '',''} \<and> t \<noteq> []
           \<and> CHR '','' \<notin> set t \<and> (r = [] \<or> hd r = CHR '','') \<and> save = drop 1 r"
proof -
  let ?seps = "takeWhile (\<lambda>c. c = CHR '','') s"
  let ?s1 = "dropWhile (\<lambda>c. c = CHR '','') s"
  let ?r = "dropWhile (\<lambda>c. c \<noteq> CHR '','') ?s1"
  have ne: "?s1 \<noteq> []" and t: "t = takeWhile (\<lambda>c. c \<noteq> CHR '','') ?s1" and save: "save = drop 1 ?r"
    using assms by (auto simp add: strtok_def Let_def split: if_splits)
  have "s = ?seps @ ?s1"
    by simp
  also have "?s1 = t @ ?r"
    using t by simp
  finally have s: "s = ?seps @ t @ ?r" .
  have seps: "set ?seps \<subseteq> {CHR '',''}"
    using set_takeWhileD [of _ "\<lambda>c. c = CHR '',''" s] by auto
  have "hd ?s1 \<noteq> CHR '',''"
    using ne hd_dropWhile [of "\<lambda>c. c = CHR '',''" s] by simp
  then have tne: "t \<noteq> []"
    using ne t by (cases ?s1) auto
  have tc: "CHR '','' \<notin> set t"
    using t set_takeWhileD [of "CHR '',''" "\<lambda>c. c \<noteq> CHR '',''" ?s1] by auto
  have r: "?r = [] \<or> hd ?r = CHR '',''"
    using hd_dropWhile [of "\<lambda>c. c \<noteq> CHR '',''" ?s1] by auto
  from s seps tne tc r save show ?thesis
    by blast
qed

lemma two_fields_complete:
  assumes "strtok (c_str p) '','' = Some (f1, save)" "strtok save '','' = Some (f2, save')"
  shows "\<exists>seps1 seps2 rest.
           p = seps1 @ f1 @ CHR '','' # seps2 @ f2 @ rest
           \<and> set seps1 \<subseteq> {CHR '',''} \<and> set seps2 \<subseteq> {CHR '',''}
           \<and> f1 \<noteq> [] \<and> CHR '','' \<notin> set f1 \<and> NUL \<notin> set f1
           \<and> f2 \<noteq> [] \<and> CHR '','' \<notin> set f2 \<and> NUL \<notin> set f2
           \<and> (rest = [] \<or> hd rest = CHR '','' \<or> hd rest = NUL)"
proof -
  obtain seps1 r1 where 1: "c_str p = seps1 @ f1 @ r1" "set seps1 \<subseteq> {CHR '',''}" "f1 \<noteq> []"
    "CHR '','' \<notin> set f1" "r1 = [] \<or> hd r1 = CHR '',''" "save = drop 1 r1"
    using strtok_Some [OF assms(1)] by blast
  obtain seps2 r2 where 2: "save = seps2 @ f2 @ r2" "set seps2 \<subseteq> {CHR '',''}" "f2 \<noteq> []"
    "CHR '','' \<notin> set f2" "r2 = [] \<or> hd r2 = CHR '',''"
    using strtok_Some [OF assms(2)] by blast
  have "save \<noteq> []"
    using 2(1,3) by simp
  then have r1: "r1 = CHR '','' # save"
    using 1(5,6) by (cases r1) auto
  let ?tail = "dropWhile (\<lambda>c. c \<noteq> NUL) p"
  have p: "p = c_str p @ ?tail"
    by (simp add: c_str_def)
  have tail: "?tail = [] \<or> hd ?tail = NUL"
    using hd_dropWhile [of "\<lambda>c. c \<noteq> NUL" p] by auto
  have nonul: "NUL \<notin> set (c_str p)"
    using set_takeWhileD [of NUL "\<lambda>c. c \<noteq> NUL" p] by (auto simp add: c_str_def)
  have cs: "c_str p = seps1 @ f1 @ CHR '','' # seps2 @ f2 @ r2"
    using 1(1) r1 2(1) by simp
  have n: "NUL \<notin> set f1" "NUL \<notin> set f2"
    using nonul cs by auto
  have "p = seps1 @ f1 @ CHR '','' # seps2 @ f2 @ (r2 @ ?tail)"
    using p cs by (metis append.assoc append_Cons)
  moreover have "r2 @ ?tail = [] \<or> hd (r2 @ ?tail) = CHR '','' \<or> hd (r2 @ ?tail) = NUL"
    using 2(5) tail by (cases r2) auto
  ultimately show ?thesis
    using 1(2,3,4) 2(2,3,4) n by blast
qed

lemma published_has_two_fields:
  assumes "p \<noteq> []" "length p < 20" "commsIteration (Datagram p) = Inr d"
  shows "\<exists>seps1 f1 seps2 f2 rest.
           p = seps1 @ f1 @ CHR '','' # seps2 @ f2 @ rest
           \<and> set seps1 \<subseteq> {CHR '',''} \<and> set seps2 \<subseteq> {CHR '',''}
           \<and> f1 \<noteq> [] \<and> CHR '','' \<notin> set f1 \<and> NUL \<notin> set f1
           \<and> f2 \<noteq> [] \<and> CHR '','' \<notin> set f2 \<and> NUL \<notin> set f2
           \<and> (rest = [] \<or> hd rest = CHR '','' \<or> hd rest = NUL)
           \<and> d = \<lparr>throttle = strtod f1, rudder = strtod f2\<rparr>"
proof -
  from assms obtain f1 save f2 save' where
    t: "strtok (c_str p) '','' = Some (f1, save)" "strtok save '','' = Some (f2, save')"
    and d: "d = \<lparr>throttle = strtod f1, rudder = strtod f2\<rparr>"
    by (auto simp add: commsIteration_Datagram split: option.splits)
  from two_fields_complete [OF t] d show ?thesis
    by blast
qed

text \<open>
  C1, as the code has it. A datagram of no bytes publishes the zero demand. A payload of
  1 to 19 bytes that holds two fields publishes \<open>strtod\<close> of the first and \<open>strtod\<close> of the
  second: a field is a non-empty run of bytes other than comma and NUL, commas in any
  number may come before each field, and anything may follow a comma or a NUL after the
  second. Each field is converted on its own: a field whose first character starts no
  number (not white space, a sign, a digit, a point, or the first letter of \<open>INF\<close> or
  \<open>NAN\<close>) reads as 0 while the other is kept. A payload of 1 to 19 bytes that publishes
  anything is of this form. After a publish, the loop goes on to the next \<open>recvfrom\<close>.
\<close>

theorem receive_failure_policy:
  "commsIteration (Datagram []) = Inr zero_demand
   \<and> (payload = seps1 @ f1 @ CHR '','' # seps2 @ f2 @ rest
        \<and> set seps1 \<subseteq> {CHR '',''} \<and> set seps2 \<subseteq> {CHR '',''}
        \<and> f1 \<noteq> [] \<and> CHR '','' \<notin> set f1 \<and> NUL \<notin> set f1
        \<and> f2 \<noteq> [] \<and> CHR '','' \<notin> set f2 \<and> NUL \<notin> set f2
        \<and> (rest = [] \<or> hd rest = CHR '','' \<or> hd rest = NUL)
        \<and> length payload < 20 \<longrightarrow>
      commsIteration (Datagram payload) = Inr \<lparr>throttle = strtod f1, rudder = strtod f2\<rparr>)
   \<and> (f \<noteq> [] \<and> \<not> isspace (hd f) \<and> hd f \<notin> set ''+-.0123456789iInN'' \<longrightarrow>
        strtod f = Finite 0)
   \<and> (p \<noteq> [] \<and> length p < 20 \<and> commsIteration (Datagram p) = Inr d' \<longrightarrow>
        (\<exists>s1 g1 s2 g2 r.
           p = s1 @ g1 @ CHR '','' # s2 @ g2 @ r
           \<and> set s1 \<subseteq> {CHR '',''} \<and> set s2 \<subseteq> {CHR '',''}
           \<and> g1 \<noteq> [] \<and> CHR '','' \<notin> set g1 \<and> NUL \<notin> set g1
           \<and> g2 \<noteq> [] \<and> CHR '','' \<notin> set g2 \<and> NUL \<notin> set g2
           \<and> (r = [] \<or> hd r = CHR '','' \<or> hd r = NUL)
           \<and> d' = \<lparr>throttle = strtod g1, rudder = strtod g2\<rparr>))
   \<and> (commsIteration ev = Inr d \<longrightarrow>
        commsLoop (ev # evs) = (d # fst (commsLoop evs), snd (commsLoop evs)))"
proof -
  have only: "p \<noteq> [] \<and> length p < 20 \<and> commsIteration (Datagram p) = Inr d' \<longrightarrow>
        (\<exists>s1 g1 s2 g2 r.
           p = s1 @ g1 @ CHR '','' # s2 @ g2 @ r
           \<and> set s1 \<subseteq> {CHR '',''} \<and> set s2 \<subseteq> {CHR '',''}
           \<and> g1 \<noteq> [] \<and> CHR '','' \<notin> set g1 \<and> NUL \<notin> set g1
           \<and> g2 \<noteq> [] \<and> CHR '','' \<notin> set g2 \<and> NUL \<notin> set g2
           \<and> (r = [] \<or> hd r = CHR '','' \<or> hd r = NUL)
           \<and> d' = \<lparr>throttle = strtod g1, rudder = strtod g2\<rparr>)"
    using published_has_two_fields [of p d'] by blast
  have two: "payload = seps1 @ f1 @ CHR '','' # seps2 @ f2 @ rest
        \<and> set seps1 \<subseteq> {CHR '',''} \<and> set seps2 \<subseteq> {CHR '',''}
        \<and> f1 \<noteq> [] \<and> CHR '','' \<notin> set f1 \<and> NUL \<notin> set f1
        \<and> f2 \<noteq> [] \<and> CHR '','' \<notin> set f2 \<and> NUL \<notin> set f2
        \<and> (rest = [] \<or> hd rest = CHR '','' \<or> hd rest = NUL)
        \<and> length payload < 20 \<longrightarrow>
      commsIteration (Datagram payload) = Inr \<lparr>throttle = strtod f1, rudder = strtod f2\<rparr>"
    using commsIteration_two_fields [of payload seps1 f1 seps2 f2 rest] by blast
  have none: "f \<noteq> [] \<and> \<not> isspace (hd f) \<and> hd f \<notin> set ''+-.0123456789iInN'' \<longrightarrow>
        strtod f = Finite 0"
    using strtod_no_number [of f] by blast
  have next_recv: "commsIteration ev = Inr d \<longrightarrow>
        commsLoop (ev # evs) = (d # fst (commsLoop evs), snd (commsLoop evs))"
    by simp
  from commsIteration_empty two none only next_recv show ?thesis
    by blast
qed

theorem receive_failure_policy_witness:
  "commsIteration (Datagram '',abc,,def,9'') = Inr zero_demand
   \<and> strtod ''abc'' = Finite 0
   \<and> commsLoop [Datagram '',abc,,def,9'', Datagram []] = ([zero_demand, zero_demand], None)"
proof -
  note t = receive_failure_policy
    [of "'',abc,,def,9''" "'',''" "''abc''" "'',''" "''def''" "'',9''" "''abc''"
        "'',abc,,def,9''" zero_demand "Datagram '',abc,,def,9''" zero_demand "[Datagram []]"]
  have a: "strtod ''abc'' = Finite 0"
    using t by (simp add: isspace_def)
  have d: "strtod ''def'' = Finite 0"
    using receive_failure_policy [of _ _ _ _ _ _ "''def''"] by (simp add: isspace_def)
  have it: "commsIteration (Datagram '',abc,,def,9'') = Inr zero_demand"
    using t a d by (simp add: NUL_def zero_demand_def)
  have "commsLoop [Datagram '',abc,,def,9'', Datagram []] = ([zero_demand, zero_demand], None)"
    using t it by simp
  with a it show ?thesis by blast
qed

theorem unparsable_field_counterexample:
  "commsIteration (Datagram ''abc,20'') = Inr \<lparr>throttle = Finite 0, rudder = Finite 20\<rparr>
   \<and> commsIteration (Datagram ''abc,20'') \<noteq> Inr zero_demand"
  by (simp add: commsIteration_Datagram c_str_def NUL_def strtok_def strtod_defs zero_demand_def)

text \<open>
  C2. A \<open>recvfrom\<close> that times out (the socket's timeout is \<open>COMMS_TIMEOUT_SEC\<close>, 5
  seconds) publishes the zero demand. \<open>n\<close> timeouts in a row publish it \<open>n\<close> times, one
  for each, and the loop then goes on with the later receives \<open>evs\<close>; after one or more
  timeouts the globals are zero whatever they were before.
\<close>

theorem timeout_publishes_zero:
  "COMMS_TIMEOUT_SEC = 5
   \<and> commsIteration Timeout = Inr zero_demand
   \<and> commsLoop (replicate n Timeout @ evs) =
        (replicate n zero_demand @ fst (commsLoop evs), snd (commsLoop evs))
   \<and> (0 < n \<longrightarrow> globals_after g (fst (commsLoop (replicate n Timeout))) = zero_demand)"
proof -
  have "commsLoop (replicate n Timeout) = (replicate n zero_demand, None)"
    using commsLoop_append_timeouts [of n "[]"] by simp
  then have "0 < n \<longrightarrow> globals_after g (fst (commsLoop (replicate n Timeout))) = zero_demand"
    by (simp add: globals_after_def)
  then show ?thesis
    by (simp add: COMMS_TIMEOUT_SEC_def commsIteration_Timeout commsLoop_append_timeouts)
qed

theorem timeout_publishes_zero_witness:
  "globals_after \<lparr>throttle = Finite 75, rudder = Finite (- 20)\<rparr>
     (fst (commsLoop [Timeout, Timeout, Timeout])) = zero_demand
   \<and> commsLoop [Timeout, Timeout, Timeout] = ([zero_demand, zero_demand, zero_demand], None)"
proof -
  have r: "replicate 3 Timeout = [Timeout, Timeout, Timeout]"
    "replicate 3 zero_demand = [zero_demand, zero_demand, zero_demand]"
    by (simp_all add: numeral_3_eq_3)
  show ?thesis
    using timeout_publishes_zero [of 3 "[]" "\<lparr>throttle = Finite 75, rudder = Finite (- 20)\<rparr>"]
    by (simp add: r commsIteration_Timeout globals_after_def)
qed

text \<open>
  C4. \<open>recvfrom\<close> stores between 0 and 20 bytes in the buffer of 20. For a datagram of
  20 bytes or more it returns 20, and the terminator is then stored at \<open>buffer[20]\<close>, one
  past the last element of the array.
\<close>

theorem nul_store_index:
  "0 \<le> fst (recvfrom (Datagram p) (replicate 20 NUL))
   \<and> fst (recvfrom (Datagram p) (replicate 20 NUL)) \<le> 20
   \<and> length (snd (recvfrom (Datagram p) (replicate 20 NUL))) = 20
   \<and> fst (recvfrom (Datagram ''75.000000,-20.000000'') (replicate 20 NUL)) = 20
   \<and> commsIteration (Datagram ''75.000000,-20.000000'') = Inl (StoreOutOfBounds 20)"
  by (simp add: recvfrom_def commsIteration_long)

text \<open>A field that crosses the twentieth byte is read as far as it was received.\<close>

lemma long_field_cut:
  "commsIteration_overrun after (Datagram ''50,-0000000000000000020'')
     = Inr \<lparr>throttle = Finite 50, rudder = Finite 0\<rparr>"
  by (simp add: commsIteration_overrun_Datagram c_str_def NUL_def strtok_def strtod_defs)



section \<open>Properties of the whole program\<close>

lemma run_loops_not_listening:
  "run_loops False ps g = (servo_loop (replicate (length (filter (\<lambda>p. p = Cycle) ps)) g), None)"
proof (induction ps)
  case Nil
  then show ?case by simp
next
  case (Cons p ps)
  then show ?case by (cases p) simp_all
qed

lemma wait_battery_no_power: "wait_battery vs = Some as \<Longrightarrow> PowerRail b \<notin> set as"
proof (induction vs arbitrary: as)
  case Nil
  then show ?case by simp
next
  case (Cons v vs)
  show ?case
  proof (cases "v < 6")
    case True
    with Cons.prems obtain as' where "wait_battery vs = Some as'"
      and "as = Stdout battery_message # Usleep 5000000 # as'"
      by (auto split: option.splits)
    with Cons.IH show ?thesis by simp
  next
    case False
    with Cons.prems show ?thesis by simp
  qed
qed

lemma servo_cycle_no_power: "PowerRail b \<notin> set (servo_cycle d)"
  by (simp add: servo_cycle_def Let_def)

lemma run_loops_no_power: "PowerRail b \<notin> set (fst (run_loops l ps g))"
proof (induction ps arbitrary: g)
  case Nil
  then show ?case by simp
next
  case (Cons p ps)
  show ?case
  proof (cases p)
    case Cycle
    with Cons.IH show ?thesis
      by (simp add: servo_cycle_no_power)
  next
    case (Recv ev)
    with Cons.IH show ?thesis
      by (cases l; cases "commsIteration ev") simp_all
  qed
qed

lemma startup_no_power_off: "PowerRail False \<notin> set startup"
  by (simp add: startup_def)

text \<open>
  A datagram with one field only, received while the program runs: the fault in the
  receive loop ends the run; the shutdown sequence is not reached.
\<close>

lemma missing_field_ends_run:
  "main \<lparr>adc_init_ret = 0, batt = [7], servo_init_ret = 0\<rparr>
        \<lparr>socket_ret = 3, setsockopt_reuse_ret = 0, setsockopt_timeo_ret = 0, bind_ret = 0\<rparr>
        [Cycle, Recv (Datagram ''50''), Cycle] =
     Some (startup @ servo_cycle zero_demand, [], Undefined NullPointer)"
  by (simp add: main_def comms_setup_def missing_field_faults)

text \<open>
  C3. When a socket call of \<open>commsThread\<close> fails (creating the socket, either
  \<open>setsockopt\<close>, or \<open>bind\<close>) after a start-up that succeeded, the thread writes its
  diagnostic and returns, and that is all: \<open>main\<close> runs every cycle of its servo loop on
  the zero demand, shuts down on the signal and returns 0.
\<close>

theorem endpoint_failure_not_fatal:
  "adc_init_ret h = 0 \<and> wait_battery (batt h) = Some waits \<and> servo_init_ret h = 0
   \<and> (socket_ret k < 0 \<or> setsockopt_reuse_ret k < 0 \<or> setsockopt_timeo_ret k < 0
        \<or> bind_ret k < 0) \<longrightarrow>
   (\<exists>diag. main h k passes =
      Some (waits @ startup
              @ servo_loop (replicate (length (filter (\<lambda>p. p = Cycle) passes)) zero_demand)
              @ shutdown,
            [Stderr diag], Exit 0))"
proof
  assume a: "adc_init_ret h = 0 \<and> wait_battery (batt h) = Some waits \<and> servo_init_ret h = 0
   \<and> (socket_ret k < 0 \<or> setsockopt_reuse_ret k < 0 \<or> setsockopt_timeo_ret k < 0
        \<or> bind_ret k < 0)"
  then have "\<exists>diag. comms_setup k = ([Stderr diag], False)"
    by (auto simp add: comms_setup_def)
  then obtain diag where cs: "comms_setup k = ([Stderr diag], False)"
    by blast
  have "main h k passes =
      Some (waits @ startup
              @ servo_loop (replicate (length (filter (\<lambda>p. p = Cycle) passes)) zero_demand)
              @ shutdown,
            [Stderr diag], Exit 0)"
    using a by (simp add: main_def cs run_loops_not_listening)
  then show "\<exists>diag. main h k passes =
      Some (waits @ startup
              @ servo_loop (replicate (length (filter (\<lambda>p. p = Cycle) passes)) zero_demand)
              @ shutdown,
            [Stderr diag], Exit 0)"
    by blast
qed

theorem endpoint_failure_not_fatal_witness:
  "main \<lparr>adc_init_ret = 0, batt = [5, 7], servo_init_ret = 0\<rparr>
        \<lparr>socket_ret = 3, setsockopt_reuse_ret = 0, setsockopt_timeo_ret = 0, bind_ret = - 1\<rparr>
        [Cycle, Recv (Datagram ''100,50''), Cycle] =
     Some ([Stdout battery_message, Usleep 5000000] @ startup
             @ servo_cycle zero_demand @ servo_cycle zero_demand @ shutdown,
           [Stderr ''bind socket failed\<newline>''], Exit 0)"
proof -
  have r: "replicate 2 zero_demand = [zero_demand, zero_demand]"
    by (simp add: numeral_2_eq_2)
  obtain diag where m: "main \<lparr>adc_init_ret = 0, batt = [5, 7], servo_init_ret = 0\<rparr>
        \<lparr>socket_ret = 3, setsockopt_reuse_ret = 0, setsockopt_timeo_ret = 0, bind_ret = - 1\<rparr>
        [Cycle, Recv (Datagram ''100,50''), Cycle] =
     Some ([Stdout battery_message, Usleep 5000000] @ startup
             @ servo_cycle zero_demand @ servo_cycle zero_demand @ shutdown,
           [Stderr diag], Exit 0)"
    using endpoint_failure_not_fatal
      [of "\<lparr>adc_init_ret = 0, batt = [5, 7], servo_init_ret = 0\<rparr>"
          "[Stdout battery_message, Usleep 5000000]"
          "\<lparr>socket_ret = 3, setsockopt_reuse_ret = 0, setsockopt_timeo_ret = 0, bind_ret = - 1\<rparr>"
          "[Cycle, Recv (Datagram ''100,50''), Cycle]"]
    by (auto simp add: r)
  then have "diag = ''bind socket failed\<newline>''"
    by (simp add: main_def comms_setup_def split: prod.splits option.splits)
  with m show ?thesis by simp
qed

text \<open>
  C8. Every run of \<open>main\<close> that returns 0 (the runs that got past start-up and left the
  servo loop on the signal) ends with: join of the thread, one pulse of \<open>min_usec\<close> on the
  throttle channel, one pulse of \<open>centre_usec\<close> on the rudder channel, a sleep, and only
  then the power rail switched off, for the first time in the run. And a start-up that
  succeeds, followed by loops that run without a fault, does end so.
\<close>

theorem shutdown_neutral_before_power_off:
  "(main h k passes = Some (acts, err, Exit 0) \<longrightarrow>
      (\<exists>pre. acts = pre @ [ThreadJoin,
                            SendPulse THROTTLE_SERVO THROTTLE_MIN_PULSE_LENGTH_USEC,
                            SendPulse RUDDER_SERVO RUDDER_CENTRE_PULSE_LENGTH_USEC,
                            Usleep 50000,
                            PowerRail False,
                            ServoCleanup]
             \<and> PowerRail False \<notin> set pre))
   \<and> (adc_init_ret h = 0 \<and> wait_battery (batt h) = Some waits \<and> servo_init_ret h = 0
        \<and> run_loops (snd (comms_setup k)) passes zero_demand = (cycles, None) \<longrightarrow>
      main h k passes = Some (waits @ startup @ cycles @ shutdown, fst (comms_setup k), Exit 0))"
proof
  show "main h k passes = Some (acts, err, Exit 0) \<longrightarrow>
      (\<exists>pre. acts = pre @ [ThreadJoin,
                            SendPulse THROTTLE_SERVO THROTTLE_MIN_PULSE_LENGTH_USEC,
                            SendPulse RUDDER_SERVO RUDDER_CENTRE_PULSE_LENGTH_USEC,
                            Usleep 50000,
                            PowerRail False,
                            ServoCleanup]
             \<and> PowerRail False \<notin> set pre)"
  proof
    assume m: "main h k passes = Some (acts, err, Exit 0)"
    then obtain waits cycles where w: "wait_battery (batt h) = Some waits"
      and c: "run_loops (snd (comms_setup k)) passes zero_demand = (cycles, None)"
      and acts: "acts = waits @ startup @ cycles @ shutdown"
      by (auto simp add: main_def split: if_splits option.splits prod.splits)
    have "PowerRail False \<notin> set cycles"
      using run_loops_no_power [of False "snd (comms_setup k)" passes zero_demand] c by simp
    then have "PowerRail False \<notin> set (waits @ startup @ cycles)"
      using wait_battery_no_power [OF w] startup_no_power_off
      by simp
    moreover have "acts = (waits @ startup @ cycles) @ shutdown"
      using acts by simp
    ultimately show "\<exists>pre. acts = pre @ [ThreadJoin,
                            SendPulse THROTTLE_SERVO THROTTLE_MIN_PULSE_LENGTH_USEC,
                            SendPulse RUDDER_SERVO RUDDER_CENTRE_PULSE_LENGTH_USEC,
                            Usleep 50000,
                            PowerRail False,
                            ServoCleanup]
             \<and> PowerRail False \<notin> set pre"
      unfolding shutdown_def by blast
  qed
next
  show "adc_init_ret h = 0 \<and> wait_battery (batt h) = Some waits \<and> servo_init_ret h = 0
        \<and> run_loops (snd (comms_setup k)) passes zero_demand = (cycles, None) \<longrightarrow>
      main h k passes = Some (waits @ startup @ cycles @ shutdown, fst (comms_setup k), Exit 0)"
    by (simp add: main_def)
qed

theorem shutdown_neutral_before_power_off_witness:
  "main \<lparr>adc_init_ret = 0, batt = [5, 7], servo_init_ret = 0\<rparr>
        \<lparr>socket_ret = 3, setsockopt_reuse_ret = 0, setsockopt_timeo_ret = 0, bind_ret = 0\<rparr>
        [Cycle, Recv (Datagram ''100,50''), Cycle, Recv Timeout] =
     Some ([Stdout battery_message, Usleep 5000000] @ startup
             @ servo_cycle zero_demand @ servo_cycle \<lparr>throttle = Finite 100, rudder = Finite 50\<rparr>
             @ shutdown,
           [], Exit 0)
   \<and> (\<exists>pre. [Stdout battery_message, Usleep 5000000] @ startup
             @ servo_cycle zero_demand @ servo_cycle \<lparr>throttle = Finite 100, rudder = Finite 50\<rparr>
             @ shutdown
           = pre @ [ThreadJoin, SendPulse 0 900, SendPulse 1 1500, Usleep 50000,
                    PowerRail False, ServoCleanup]
         \<and> PowerRail False \<notin> set pre)"
proof -
  let ?h = "\<lparr>adc_init_ret = 0, batt = [5, 7], servo_init_ret = 0\<rparr>"
  let ?k = "\<lparr>socket_ret = 3, setsockopt_reuse_ret = 0, setsockopt_timeo_ret = 0, bind_ret = 0\<rparr>"
  let ?passes = "[Cycle, Recv (Datagram ''100,50''), Cycle, Recv Timeout]"
  let ?acts = "[Stdout battery_message, Usleep 5000000] @ startup
             @ servo_cycle zero_demand @ servo_cycle \<lparr>throttle = Finite 100, rudder = Finite 50\<rparr>
             @ shutdown"
  have d: "commsIteration (Datagram ''100,50'') = Inr \<lparr>throttle = Finite 100, rudder = Finite 50\<rparr>"
    by (simp add: commsIteration_Datagram c_str_def NUL_def strtok_def strtod_defs)
  have cs: "comms_setup ?k = ([], True)"
    by (simp add: comms_setup_def)
  have loops: "run_loops (snd (comms_setup ?k)) ?passes zero_demand =
      (servo_cycle zero_demand @ servo_cycle \<lparr>throttle = Finite 100, rudder = Finite 50\<rparr>, None)"
    by (simp add: cs d commsIteration_Timeout)
  note t = shutdown_neutral_before_power_off
    [of ?h ?k ?passes ?acts "[]" "[Stdout battery_message, Usleep 5000000]"
        "servo_cycle zero_demand @ servo_cycle \<lparr>throttle = Finite 100, rudder = Finite 50\<rparr>"]
  have m: "main ?h ?k ?passes = Some (?acts, [], Exit 0)"
    using t loops by (simp add: cs)
  with t have "\<exists>pre. ?acts = pre @ [ThreadJoin,
                            SendPulse THROTTLE_SERVO THROTTLE_MIN_PULSE_LENGTH_USEC,
                            SendPulse RUDDER_SERVO RUDDER_CENTRE_PULSE_LENGTH_USEC,
                            Usleep 50000,
                            PowerRail False,
                            ServoCleanup]
             \<and> PowerRail False \<notin> set pre"
    by blast
  then have "\<exists>pre. ?acts = pre @ [ThreadJoin, SendPulse 0 900, SendPulse 1 1500, Usleep 50000,
                    PowerRail False, ServoCleanup]
         \<and> PowerRail False \<notin> set pre"
    by (simp add: config_defs)
  with m show ?thesis by blast
qed

section \<open>Properties of the critical sections\<close>

lemma consistent_initial: "consistent (insert zero_demand (set pubs)) (initial pubs tmp)"
  by (auto simp add: consistent_def initial_def)

lemma comms_step_consistent:
  assumes "consistent P s"
  shows "consistent P (comms_step s)"
proof (cases "comms_tmp s")
  case Nil
  then show ?thesis
    using assms by (simp add: comms_step_def)
next
  case (Cons d ds)
  show ?thesis
  proof (cases "comms_pc s")
    case Outside
    then show ?thesis
      using assms Cons by (auto simp add: comms_step_def consistent_def)
  next
    case Locked
    then show ?thesis
      using assms Cons by (auto simp add: comms_step_def consistent_def)
  next
    case Half
    then show ?thesis
      using assms Cons by (auto simp add: comms_step_def consistent_def intro: demand.equality)
  next
    case Both
    then show ?thesis
      using assms Cons by (auto simp add: comms_step_def consistent_def)
  qed
qed

lemma main_step_consistent:
  assumes "consistent P s"
  shows "consistent P (main_step s)"
proof (cases "main_pc s")
  case Outside
  then show ?thesis
    using assms by (auto simp add: main_step_def consistent_def)
next
  case Locked
  then show ?thesis
    using assms by (auto simp add: main_step_def consistent_def)
next
  case Half
  then show ?thesis
    using assms by (auto simp add: main_step_def consistent_def intro: demand.equality)
next
  case Both
  then show ?thesis
    using assms by (auto simp add: main_step_def consistent_def)
qed

lemma interleave_consistent:
  "consistent P s \<Longrightarrow> consistent P (interleave ts s)"
proof (induction ts arbitrary: s)
  case Nil
  then show ?case by simp
next
  case (Cons t ts)
  then show ?case
    by (cases t) (simp_all add: thread_step_def comms_step_consistent main_step_consistent)
qed

text \<open>
  C10. In every interleaving of the statements of the two critical sections, each copy
  of the globals that \<open>main\<close> leaves its critical section with is the initial zero demand
  or one of the demands \<open>commsThread\<close> published, as a whole: never the throttle of one
  and the rudder of another. The two threads are never both inside.
\<close>

theorem snapshot_consistent:
  "(d \<in> set (copies (interleave ts (initial pubs tmp))) \<longrightarrow> d = zero_demand \<or> d \<in> set pubs)
   \<and> (comms_pc (interleave ts (initial pubs tmp)) = Outside
        \<or> main_pc (interleave ts (initial pubs tmp)) = Outside)"
proof -
  have c: "consistent (insert zero_demand (set pubs)) (interleave ts (initial pubs tmp))"
    by (rule interleave_consistent) (rule consistent_initial)
  then have "set (copies (interleave ts (initial pubs tmp))) \<subseteq> insert zero_demand (set pubs)"
    by (simp add: consistent_def)
  then have copies: "d \<in> set (copies (interleave ts (initial pubs tmp))) \<longrightarrow>
      d = zero_demand \<or> d \<in> set pubs"
    by auto
  have "comms_pc (interleave ts (initial pubs tmp)) = Outside
        \<or> main_pc (interleave ts (initial pubs tmp)) = Outside"
    using c by (auto simp add: consistent_def)
  with copies show ?thesis by blast
qed

theorem snapshot_consistent_witness:
  "copies (interleave
      [CommsThread, MainThread, CommsThread, MainThread, CommsThread, CommsThread,
       MainThread, CommsThread, MainThread, MainThread, MainThread,
       CommsThread, CommsThread, MainThread, CommsThread, CommsThread,
       MainThread, MainThread, MainThread, MainThread]
      (initial [\<lparr>throttle = Finite 75, rudder = Finite (- 20)\<rparr>, \<lparr>throttle = Finite 10, rudder = Finite 5\<rparr>]
         \<lparr>throttle = Finite 1, rudder = Finite 1\<rparr>))
     = [\<lparr>throttle = Finite 75, rudder = Finite (- 20)\<rparr>, \<lparr>throttle = Finite 10, rudder = Finite 5\<rparr>]
   \<and> \<lparr>throttle = Finite 75, rudder = Finite (- 20)\<rparr>
       \<in> set [\<lparr>throttle = Finite 75, rudder = Finite (- 20)\<rparr>, \<lparr>throttle = Finite 10, rudder = Finite 5\<rparr>]"
proof -
  let ?ts = "[CommsThread, MainThread, CommsThread, MainThread, CommsThread, CommsThread,
       MainThread, CommsThread, MainThread, MainThread, MainThread,
       CommsThread, CommsThread, MainThread, CommsThread, CommsThread,
       MainThread, MainThread, MainThread, MainThread]"
  let ?pubs = "[\<lparr>throttle = Finite 75, rudder = Finite (- 20)\<rparr>, \<lparr>throttle = Finite 10, rudder = Finite 5\<rparr>]"
  let ?tmp = "\<lparr>throttle = Finite 1, rudder = Finite 1\<rparr>"
  have run: "copies (interleave ?ts (initial ?pubs ?tmp)) = ?pubs"
    by (simp add: initial_def thread_step_def comms_step_def main_step_def)
  have "\<lparr>throttle = Finite 75, rudder = Finite (- 20)\<rparr> \<in> set (copies (interleave ?ts (initial ?pubs ?tmp)))"
    by (subst run) simp
  with snapshot_consistent [of "\<lparr>throttle = Finite 75, rudder = Finite (- 20)\<rparr>" ?ts ?pubs ?tmp]
  have "\<lparr>throttle = Finite 75, rudder = Finite (- 20)\<rparr> \<in> set ?pubs"
    by (simp add: zero_demand_def)
  with run show ?thesis by blast
qed

end
